theory Spec2Isabelle
  imports Complex_Main "HOL-Library.Multiset" "HOL-Library.AList"
begin

section \<open>Data model\<close>

text \<open>
  The program stores every amount and balance as a Go \<open>float64\<close>. The development reads
  them as exact rationals, that is, as the numbers the JSON documents denote: rounding,
  infinities and NaN are outside the model.
\<close>

type_synonym float64 = rat

text \<open>
  \<open>Instruction.Change\<close> has the type \<open>any\<close>; after \<open>json.Unmarshal\<close> it holds a
  \<open>float64\<close>, a \<open>string\<close>, a \<open>map[string]any\<close> or something else (nil, bool, array).
  A decoded object is kept as its list of members, read with \<open>map_of\<close>.
\<close>

datatype any = Float64 float64 | Str string | MapStringAny "(string \<times> any) list" | OtherJSON

record Fee =
  Payer :: string
  Amount :: float64

record Instruction =
  Account :: string
  Change :: any

text \<open>
  \<open>validator.Transaction\<close> embeds \<open>models.Transaction\<close> and adds the priority and the
  heap index.
\<close>

record Transaction =
  Fee :: Fee
  Instructions :: "Instruction list"
  prio :: int
  index :: int

type_synonym Accounts = "string \<rightharpoonup> float64"

datatype error =
    ErrNoSuchAccount
  | ErrInvalidSnapshot
  | ErrInstructionSumNonZero
  | ErrBalanceNegative

datatype panic =
    IndexOutOfRange
  | NoSuchAccountKey
  | TypeAssertion
  | NoSuchAccount
  | SignNotFound
  | UnknownSign
  | UnexpectedJSONFormat

section \<open>The transaction heap\<close>

type_synonym TransactionHeap = "Transaction list"

definition Less :: "TransactionHeap \<Rightarrow> nat \<Rightarrow> nat \<Rightarrow> bool" where
  "Less h i j = (prio (h ! i) > prio (h ! j))"

definition Swap :: "TransactionHeap \<Rightarrow> nat \<Rightarrow> nat \<Rightarrow> TransactionHeap" where
  "Swap h i j =
     (let h1 = h[i := h ! j, j := h ! i];
          h2 = h1[i := (h1 ! i)\<lparr>index := int i\<rparr>]
      in h2[j := (h2 ! j)\<lparr>index := int j\<rparr>])"

definition Push :: "TransactionHeap \<Rightarrow> Transaction \<Rightarrow> TransactionHeap" where
  "Push h tx = h @ [tx\<lparr>index := int (length h)\<rparr>]"

definition Pop :: "TransactionHeap \<Rightarrow> panic + (Transaction \<times> TransactionHeap)" where
  "Pop h =
     (if h = [] then Inl IndexOutOfRange
      else Inr ((last h)\<lparr>index := - 1\<rparr>, butlast h))"

text \<open>
  \<open>heap.Push\<close> and \<open>heap.Pop\<close> are Go's \<open>container/heap\<close>, which drives the four methods
  above through \<open>up\<close> and \<open>down\<close>:
  \<^verbatim>\<open>
  func Push(h Interface, x any) { h.Push(x); up(h, h.Len()-1) }
  func Pop(h Interface) any {
      n := h.Len() - 1; h.Swap(0, n); down(h, 0, n); return h.Pop() }
  func up(h Interface, j int) {
      for { i := (j - 1) / 2 // parent
            if i == j || !h.Less(j, i) { break }
            h.Swap(i, j); j = i } }
  func down(h Interface, i0, n int) bool {
      i := i0
      for { j1 := 2*i + 1
            if j1 >= n || j1 < 0 { break }
            j := j1
            if j2 := j1 + 1; j2 < n && h.Less(j2, j1) { j = j2 }
            if !h.Less(j, i) { break }
            h.Swap(i, j); i = j }
      return i > i0 }
  \<close>
  Indices are natural numbers here: Go's \<open>(0 - 1) / 2\<close> truncates to \<open>0\<close>, as the
  subtraction on \<open>nat\<close> does, and \<open>2*i + 1\<close> cannot overflow for a slice that fits in
  memory. The result of \<open>down\<close> is not used by \<open>heap.Pop\<close> and is left out.
\<close>

function up :: "TransactionHeap \<Rightarrow> nat \<Rightarrow> TransactionHeap" where
  "up h j =
     (let i = (j - 1) div 2
      in if i = j \<or> \<not> Less h j i then h else up (Swap h i j) i)"
  by pat_completeness auto
termination
  by (relation "measure (\<lambda>(h, j). j)") auto

function down :: "TransactionHeap \<Rightarrow> nat \<Rightarrow> nat \<Rightarrow> TransactionHeap" where
  "down h i n =
     (let j1 = 2 * i + 1
      in if j1 \<ge> n then h
         else let j = (if j1 + 1 < n \<and> Less h (j1 + 1) j1 then j1 + 1 else j1)
              in if \<not> Less h j i then h else down (Swap h i j) j n)"
  by pat_completeness auto
termination
  by (relation "measure (\<lambda>(h, i, n). n - i)") auto

definition heap_Push :: "TransactionHeap \<Rightarrow> Transaction \<Rightarrow> TransactionHeap" where
  "heap_Push h x = (let h' = Push h x in up h' (length h' - 1))"

definition heap_Pop :: "TransactionHeap \<Rightarrow> panic + (Transaction \<times> TransactionHeap)" where
  "heap_Pop h =
     (if h = [] then Inl IndexOutOfRange
      else let n = length h - 1 in Pop (down (Swap h 0 n) 0 n))"

definition PushTransaction :: "TransactionHeap \<Rightarrow> Transaction \<Rightarrow> TransactionHeap" where
  "PushTransaction h tx = heap_Push h tx"

definition NextTransaction :: "TransactionHeap \<Rightarrow> panic + (Transaction \<times> TransactionHeap)" where
  "NextTransaction h = heap_Pop h"

section \<open>The accounts database\<close>

text \<open>
  \<open>InitFromSnapshot\<close> is given the members of the decoded snapshot object in file order;
  the decoder stores them one after the other, so a repeated name keeps its last balance.
\<close>

definition decode_snapshot :: "(string \<times> float64) list \<Rightarrow> Accounts" where
  "decode_snapshot kvs = map_of (rev kvs)"

definition InitFromSnapshot :: "(string \<times> float64) list \<Rightarrow> error + Accounts" where
  "InitFromSnapshot kvs =
     (let accounts = decode_snapshot kvs
      in if list_ex (\<lambda>k. case accounts k of None \<Rightarrow> False | Some balance \<Rightarrow> balance < 0)
              (map fst kvs)
         then Inl ErrInvalidSnapshot
         else if accounts ''validator'' = None then Inr (accounts(''validator'' \<mapsto> 0))
         else Inr accounts)"

definition GetBalance :: "Accounts \<Rightarrow> string \<Rightarrow> error + float64" where
  "GetBalance db account =
     (case db account of None \<Rightarrow> Inl ErrNoSuchAccount | Some balance \<Rightarrow> Inr balance)"

text \<open>\<open>balance, _ := db.GetBalance(account)\<close>: the error is dropped and the balance is \<open>0\<close>.\<close>

definition balance_ignoring_error :: "Accounts \<Rightarrow> string \<Rightarrow> float64" where
  "balance_ignoring_error db account =
     (case GetBalance db account of Inl _ \<Rightarrow> 0 | Inr balance \<Rightarrow> balance)"

definition Copy :: "Accounts \<Rightarrow> Accounts" where
  "Copy db = db"

definition Earn :: "Accounts \<Rightarrow> float64 \<Rightarrow> Accounts" where
  "Earn db amount = db(''validator'' \<mapsto> balance_ignoring_error db ''validator'' + amount)"

section \<open>Scoring\<close>

definition CalcScore :: "Transaction \<Rightarrow> int" where
  "CalcScore tx =
     (let score = Amount (Fee tx) * 10;
          score = score + of_int (int (length (Instructions tx)) * (- 5))
      in \<lceil>score / 2\<rceil>)"

section \<open>The commutativity check\<close>

text \<open>
  \<open>changes\<close> is a Go map that is ranged over twice, in an order the language leaves
  open. It is kept as an association list with distinct keys, and the order of a range
  loop is a parameter: a function that rearranges the entries.
\<close>

type_synonym changes = "(string \<times> float64) list"

fun fold_instr :: "Accounts \<Rightarrow> Instruction \<Rightarrow> changes \<times> float64 \<Rightarrow> panic + (changes \<times> float64)" where
  "fold_instr vdb instr (changes, sumv) =
     (case Change instr of
        Float64 change \<Rightarrow>
          if change > 0 then Inr (changes, sumv + change)
          else (case map_of changes (Account instr) of
                  Some oldChange \<Rightarrow>
                    Inr (AList.update (Account instr) (oldChange + change) changes, sumv + change)
                | None \<Rightarrow> Inr (AList.update (Account instr) change changes, sumv + change))
      | MapStringAny change \<Rightarrow>
          (case map_of change ''account'' of
             None \<Rightarrow> Inl NoSuchAccountKey
           | Some (Str account) \<Rightarrow>
               (case GetBalance vdb account of
                  Inl _ \<Rightarrow> Inl NoSuchAccount
                | Inr targetBalance \<Rightarrow>
                    (case map_of change ''sign'' of
                       None \<Rightarrow> Inl SignNotFound
                     | Some (Str sign) \<Rightarrow>
                         if sign = ''plus'' then Inr (changes, sumv + targetBalance)
                         else if sign = ''minus'' then
                           (case map_of changes (Account instr) of
                              Some oldChange \<Rightarrow>
                                Inr (AList.update (Account instr) (oldChange - targetBalance) changes, sumv)
                            | None \<Rightarrow>
                                Inr (AList.update (Account instr) targetBalance changes, sumv))
                         else Inl UnknownSign
                     | Some _ \<Rightarrow> Inl TypeAssertion))
           | Some _ \<Rightarrow> Inl TypeAssertion)
      | _ \<Rightarrow> Inl UnexpectedJSONFormat)"

fun fold_instrs :: "Accounts \<Rightarrow> Instruction list \<Rightarrow> changes \<times> float64 \<Rightarrow> panic + (changes \<times> float64)" where
  "fold_instrs vdb [] acc = Inr acc"
| "fold_instrs vdb (instr # rest) acc =
     (case fold_instr vdb instr acc of Inl p \<Rightarrow> Inl p | Inr acc' \<Rightarrow> fold_instrs vdb rest acc')"

text \<open>
  The first range loop: an entry for an account that the copy does not hold fails the
  transaction when it is negative and is deleted from \<open>changes\<close> otherwise; an entry that
  would take an existing balance below zero makes the transaction non-commutative. The
  result is the \<open>(bool, error)\<close> the function returns early with, or the entries still in
  \<open>changes\<close> after the loop.
\<close>

fun test_changes :: "Accounts \<Rightarrow> changes \<Rightarrow> (bool \<times> error option) + changes" where
  "test_changes db [] = Inr []"
| "test_changes db ((account, change) # rest) =
     (case GetBalance db account of
        Inl _ \<Rightarrow> if change < 0 then Inl (True, Some ErrBalanceNegative) else test_changes db rest
      | Inr balance \<Rightarrow>
          if balance + change < 0 then Inl (False, None)
          else (case test_changes db rest of
                  Inl r \<Rightarrow> Inl r
                | Inr kept \<Rightarrow> Inr ((account, change) # kept)))"

fun commit_changes :: "changes \<Rightarrow> Accounts \<Rightarrow> Accounts" where
  "commit_changes [] db = db"
| "commit_changes ((account, change) # rest) db =
     commit_changes rest (db(account \<mapsto> balance_ignoring_error db account + change))"

definition isCommutative ::
  "(changes \<Rightarrow> changes) \<Rightarrow> Accounts \<Rightarrow> Transaction \<Rightarrow> Accounts \<Rightarrow> panic + (bool \<times> error option \<times> Accounts)" where
  "isCommutative ord vdb tx db =
     (case fold_instrs vdb (Instructions tx) ([(Payer (Fee tx), - Amount (Fee tx))], 0) of
        Inl p \<Rightarrow> Inl p
      | Inr (changes, sumv) \<Rightarrow>
          if sumv \<noteq> 0 then Inr (True, Some ErrInstructionSumNonZero, db)
          else (case test_changes db (ord changes) of
                  Inl (b, err) \<Rightarrow> Inr (b, err, db)
                | Inr kept \<Rightarrow> Inr (True, None, commit_changes kept db)))"

section \<open>Committing a batch\<close>

fun commit_instr :: "Instruction \<Rightarrow> Accounts \<Rightarrow> panic + Accounts" where
  "commit_instr instr db =
     (case Change instr of
        Float64 change \<Rightarrow>
          Inr (db(Account instr \<mapsto> balance_ignoring_error db (Account instr) + change))
      | MapStringAny change \<Rightarrow>
          (case map_of change ''account'' of
             None \<Rightarrow> Inl NoSuchAccountKey
           | Some (Str account) \<Rightarrow>
               (let balance = balance_ignoring_error db (Account instr)
                in case GetBalance db account of
                     Inl _ \<Rightarrow> Inl NoSuchAccount
                   | Inr targetBalance \<Rightarrow>
                       (case map_of change ''sign'' of
                          None \<Rightarrow> Inl SignNotFound
                        | Some (Str sign) \<Rightarrow>
                            if sign = ''plus'' then Inr (db(Account instr \<mapsto> balance + targetBalance))
                            else if sign = ''minus'' then Inr (db(Account instr \<mapsto> balance - targetBalance))
                            else Inl UnknownSign
                        | Some _ \<Rightarrow> Inl TypeAssertion))
           | Some _ \<Rightarrow> Inl TypeAssertion)
      | _ \<Rightarrow> Inl UnexpectedJSONFormat)"

fun commit_instrs :: "Instruction list \<Rightarrow> Accounts \<Rightarrow> panic + Accounts" where
  "commit_instrs [] db = Inr db"
| "commit_instrs (instr # rest) db =
     (case commit_instr instr db of Inl p \<Rightarrow> Inl p | Inr db' \<Rightarrow> commit_instrs rest db')"

definition commit_fee :: "Transaction \<Rightarrow> Accounts \<Rightarrow> Accounts" where
  "commit_fee tx db =
     (let balance = balance_ignoring_error db (Payer (Fee tx));
          newBalance = balance - Amount (Fee tx);
          db1 = Earn db (Amount (Fee tx))
      in db1(Payer (Fee tx) \<mapsto> newBalance))"

definition commit_tx :: "Transaction \<Rightarrow> Accounts \<Rightarrow> panic + Accounts" where
  "commit_tx tx db = commit_instrs (Instructions tx) (commit_fee tx db)"

fun commit_txs :: "Transaction list \<Rightarrow> Accounts \<Rightarrow> panic + Accounts" where
  "commit_txs [] db = Inr db"
| "commit_txs (tx # rest) db =
     (case commit_tx tx db of Inl p \<Rightarrow> Inl p | Inr db' \<Rightarrow> commit_txs rest db')"

section \<open>The validator\<close>

text \<open>
  Of the \<open>Validator\<close> struct the model keeps the database (\<open>vali.db\<close>, here \<open>vali_db\<close>), the transaction channel (its
  queued elements, oldest first), the batch counter and the heap; \<open>sent\<close> lists the
  batches posted by \<open>SendBatch\<close>. The channel is read and written only between the steps
  of the processing loop, and its capacity is not modelled.
\<close>

record Validator =
  vali_db :: Accounts
  txCh :: "Transaction list"
  batchIdx :: nat
  txHeap :: TransactionHeap
  sent :: "Transaction list list"

definition CommitBatch :: "Transaction list \<Rightarrow> Validator \<Rightarrow> panic + Validator" where
  "CommitBatch batch vali =
     (case commit_txs batch (vali_db vali) of
        Inl p \<Rightarrow> Inl p
      | Inr db' \<Rightarrow> Inr (vali\<lparr>vali_db := db', batchIdx := batchIdx vali + 1\<rparr>))"

definition SendBatch :: "Transaction list \<Rightarrow> Validator \<Rightarrow> Validator" where
  "SendBatch batch vali = vali\<lparr>sent := sent vali @ [batch]\<rparr>"

text \<open>
  One message of \<open>ReceiveTransactions\<close> after decoding: the score is computed and the
  transaction is put on the channel.
\<close>

definition ReceiveTransaction :: "Fee \<Rightarrow> Instruction list \<Rightarrow> Validator \<Rightarrow> Validator" where
  "ReceiveTransaction fee instrs vali =
     (let tx = \<lparr>Fee = fee, Instructions = instrs, prio = 0, index = 0\<rparr>;
          tx = tx\<lparr>prio := CalcScore tx\<rparr>
      in vali\<lparr>txCh := txCh vali @ [tx]\<rparr>)"

text \<open>The heap never changes its length except by the element that \<open>Pop\<close> removes.\<close>

declare up.simps [simp del] down.simps [simp del]

lemma length_Swap [simp]: "length (Swap h i j) = length h"
  by (simp add: Swap_def Let_def)

lemma length_up [simp]: "length (up h j) = length h"
proof (induction h j rule: up.induct)
  case (1 h j)
  show ?case
  proof (cases "(j - 1) div 2 = j \<or> \<not> Less h j ((j - 1) div 2)")
    case True
    then show ?thesis by (subst up.simps) (simp add: Let_def)
  next
    case False
    with "1" show ?thesis by (subst up.simps) (simp add: Let_def)
  qed
qed

lemma length_down [simp]: "length (down h i n) = length h"
proof (induction h i n rule: down.induct)
  case (1 h i n)
  show ?case
    using "1" by (subst down.simps) (simp add: Let_def)
qed

lemma NextTransaction_length:
  "NextTransaction h = Inr (tx, h') \<Longrightarrow> length h' < length h"
proof -
  assume a: "NextTransaction h = Inr (tx, h')"
  have ne: "h \<noteq> []"
    using a by (auto simp: NextTransaction_def heap_Pop_def)
  define g where "g = down (Swap h 0 (length h - 1)) 0 (length h - 1)"
  have lg: "length g = length h"
    by (simp add: g_def)
  have "Pop g = Inr (tx, h')"
    using a ne by (simp add: NextTransaction_def heap_Pop_def Let_def g_def)
  then have "h' = butlast g"
    by (auto simp: Pop_def split: if_splits)
  then show ?thesis
    using lg ne by simp
qed

section \<open>Building a batch\<close>

text \<open>
  The inner loop of \<open>ProcessTransactions\<close>. \<open>vdb\<close> is the validator's own database,
  \<open>db\<close> the copy, \<open>ch\<close> the transaction channel. Each call of \<open>isCommutative\<close> ranges over
  its map in an order of its own: \<open>ord\<close> is indexed by the number of transactions left
  in the heap, which is different at every iteration of a pass.
\<close>

function fill_batch ::
  "(nat \<Rightarrow> changes \<Rightarrow> changes) \<Rightarrow> Accounts \<Rightarrow> Transaction list \<Rightarrow> Accounts \<Rightarrow> TransactionHeap \<Rightarrow>
   Transaction list \<Rightarrow> panic + (Transaction list \<times> Accounts \<times> TransactionHeap \<times> Transaction list)" where
  "fill_batch ord vdb batch db h ch =
     (if length batch < 100 \<and> length h > 0 then
        (case NextTransaction h of
           Inl p \<Rightarrow> Inl p
         | Inr (tx, h') \<Rightarrow>
             (case GetBalance db (Payer (Fee tx)) of
                Inl _ \<Rightarrow> fill_batch ord vdb batch db h' ch
              | Inr balance \<Rightarrow>
                  if balance - Amount (Fee tx) < 0 then fill_batch ord vdb batch db h' ch
                  else (case isCommutative (ord (length h')) vdb tx db of
                          Inl p \<Rightarrow> Inl p
                        | Inr (isComm, err, db') \<Rightarrow>
                            if err \<noteq> None then
                              (if isComm then fill_batch ord vdb batch (Earn db' (Amount (Fee tx))) h' ch
                               else fill_batch ord vdb batch db' h' ch)
                            else if \<not> isComm then fill_batch ord vdb batch db' h' (ch @ [tx])
                            else fill_batch ord vdb (batch @ [tx]) db' h' ch)))
      else Inr (batch, db, h, ch))"
  by pat_completeness auto
termination
  by (relation "measure (\<lambda>(ord, vdb, batch, db, h, ch). length h)")
     (auto dest: NextTransaction_length)

declare fill_batch.simps [simp del]

text \<open>
  One turn of the outer loop: a transaction waiting on the channel is pushed on the heap;
  with nothing waiting (the \<open>default\<close> case) a batch is built, committed and sent.
\<close>

definition ProcessTransactions_default :: "(nat \<Rightarrow> changes \<Rightarrow> changes) \<Rightarrow> Validator \<Rightarrow> panic + Validator" where
  "ProcessTransactions_default ord vali =
     (if length (txHeap vali) = 0 then Inr vali
      else (case fill_batch ord (vali_db vali) [] (Copy (vali_db vali)) (txHeap vali) (txCh vali) of
              Inl p \<Rightarrow> Inl p
            | Inr (batch, working, h', ch') \<Rightarrow>
                (let vali1 = vali\<lparr>txHeap := h', txCh := ch'\<rparr>
                 in if length batch = 0 then Inr vali1
                    else (case CommitBatch batch vali1 of
                            Inl p \<Rightarrow> Inl p
                          | Inr vali2 \<Rightarrow> Inr (SendBatch batch vali2)))))"

definition ProcessTransactions_step :: "(nat \<Rightarrow> changes \<Rightarrow> changes) \<Rightarrow> Validator \<Rightarrow> panic + Validator" where
  "ProcessTransactions_step ord vali =
     (case txCh vali of
        tx # rest \<Rightarrow> Inr (vali\<lparr>txCh := rest, txHeap := PushTransaction (txHeap vali) tx\<rparr>)
      | [] \<Rightarrow> ProcessTransactions_default ord vali)"

definition NewFromSnapshot :: "(string \<times> float64) list \<Rightarrow> error + Validator" where
  "NewFromSnapshot snapshot =
     (case InitFromSnapshot snapshot of
        Inl e \<Rightarrow> Inl e
      | Inr accounts \<Rightarrow> Inr \<lparr>vali_db = accounts, txCh = [], batchIdx = 0, txHeap = [], sent = []\<rparr>)"

section \<open>Example inputs\<close>

text \<open>
  The ledger and the transfer of the specification's example, a validator that holds the
  transfer in its heap, and the range order that visits \<open>changes\<close> in insertion order.
\<close>

definition insertion_order :: "nat \<Rightarrow> changes \<Rightarrow> changes" where
  "insertion_order n cs = cs"

definition example_ledger :: Accounts where
  "example_ledger = [''alice'' \<mapsto> 100, ''bob'' \<mapsto> 50, ''validator'' \<mapsto> 0]"

definition example_transfer :: Transaction where
  "example_transfer =
     \<lparr>Fee = \<lparr>Payer = ''alice'', Amount = 10\<rparr>,
      Instructions = [\<lparr>Account = ''alice'', Change = Float64 (- 10)\<rparr>,
                      \<lparr>Account = ''bob'', Change = Float64 10\<rparr>],
      prio = 45, index = 0\<rparr>"

definition example_validator :: Validator where
  "example_validator =
     \<lparr>vali_db = example_ledger, txCh = [], batchIdx = 0, txHeap = [example_transfer], sent = []\<rparr>"

definition example_working :: Accounts where
  "example_working = [''alice'' \<mapsto> 80, ''bob'' \<mapsto> 50, ''validator'' \<mapsto> 0]"


definition example_overdraft :: Transaction where
  "example_overdraft =
     \<lparr>Fee = \<lparr>Payer = ''alice'', Amount = 5\<rparr>,
      Instructions = [\<lparr>Account = ''alice'', Change = Float64 (- 100)\<rparr>,
                      \<lparr>Account = ''bob'', Change = Float64 100\<rparr>],
      prio = 20, index = 0\<rparr>"

text \<open>
  A ledger with a relative transfer: \<open>bob\<close> is to lose \<open>carol\<close>'s balance.
\<close>

definition relative_snapshot :: "(string \<times> float64) list" where
  "relative_snapshot = [(''alice'', 10), (''bob'', 5), (''carol'', 7)]"

definition minus_carol :: any where
  "minus_carol = MapStringAny [(''account'', Str ''carol''), (''sign'', Str ''minus'')]"

definition relative_ledger :: Accounts where
  "relative_ledger = [''alice'' \<mapsto> 10, ''bob'' \<mapsto> 5, ''carol'' \<mapsto> 7, ''validator'' \<mapsto> 0]"

text \<open>
  Two transactions for one batch: the first credits \<open>carol\<close>, the second subtracts
  \<open>carol\<close>'s balance from \<open>bob\<close>, who also pays its fee. Both are written as the heap
  returns them, with their score and the index \<open>-1\<close>.
\<close>

definition order_snapshot :: "(string \<times> float64) list" where
  "order_snapshot = [(''alice'', 10), (''bob'', 6), (''carol'', 5), (''dave'', 5)]"

definition credit_carol :: Transaction where
  "credit_carol =
     \<lparr>Fee = \<lparr>Payer = ''alice'', Amount = 2\<rparr>,
      Instructions = [\<lparr>Account = ''dave'', Change = Float64 (- 5)\<rparr>,
                      \<lparr>Account = ''carol'', Change = Float64 5\<rparr>],
      prio = 5, index = - 1\<rparr>"

definition bob_minus_carol :: Transaction where
  "bob_minus_carol =
     \<lparr>Fee = \<lparr>Payer = ''bob'', Amount = 1\<rparr>,
      Instructions = [\<lparr>Account = ''bob'', Change = minus_carol\<rparr>],
      prio = 3, index = - 1\<rparr>"

text \<open>
  A transaction whose single instruction does not sum to zero.
\<close>

definition fee_snapshot :: "(string \<times> float64) list" where
  "fee_snapshot = [(''alice'', 100), (''bob'', 50), (''validator'', 0)]"

definition unbalanced_credit :: Transaction where
  "unbalanced_credit =
     \<lparr>Fee = \<lparr>Payer = ''alice'', Amount = 10\<rparr>,
      Instructions = [\<lparr>Account = ''bob'', Change = Float64 5\<rparr>],
      prio = 48, index = - 1\<rparr>"

section \<open>Rules for the loop that fills a batch\<close>

text \<open>
  \<open>affordable\<close> is the loop's fee check, negated: the payer exists in the copy and
  paying the fee does not take the balance below zero.
\<close>

definition affordable :: "Accounts \<Rightarrow> Transaction \<Rightarrow> bool" where
  "affordable db tx =
     (case GetBalance db (Payer (Fee tx)) of
        Inl _ \<Rightarrow> False
      | Inr balance \<Rightarrow> \<not> balance - Amount (Fee tx) < 0)"

lemma NextTransaction_nonempty:
  "h \<noteq> [] \<Longrightarrow> \<exists>tx h1. NextTransaction h = Inr (tx, h1)"
proof -
  assume ne: "h \<noteq> []"
  define g where "g = down (Swap h 0 (length h - 1)) 0 (length h - 1)"
  have "length g = length h" by (simp add: g_def)
  with ne have "g \<noteq> []" by auto
  then show ?thesis
    using ne by (simp add: NextTransaction_def heap_Pop_def Let_def Pop_def g_def)
qed

lemma fill_batch_stop:
  "\<not> (length batch < 100 \<and> length h > 0) \<Longrightarrow>
   fill_batch ord vdb batch db h ch = Inr (batch, db, h, ch)"
  by (subst fill_batch.simps, subst if_not_P, assumption, rule refl)

lemma fill_batch_drop:
  "length batch < 100 \<Longrightarrow> NextTransaction h = Inr (tx, h1) \<Longrightarrow> \<not> affordable db tx \<Longrightarrow>
   fill_batch ord vdb batch db h ch = fill_batch ord vdb batch db h1 ch"
  by (subst fill_batch.simps)
     (auto simp: affordable_def dest: NextTransaction_length split: sum.splits)

lemma fill_batch_panic:
  "length batch < 100 \<Longrightarrow> NextTransaction h = Inr (tx, h1) \<Longrightarrow> affordable db tx \<Longrightarrow>
   isCommutative (ord (length h1)) vdb tx db = Inl p \<Longrightarrow>
   fill_batch ord vdb batch db h ch = Inl p"
  by (subst fill_batch.simps)
     (auto simp: affordable_def dest: NextTransaction_length split: sum.splits)

lemma fill_batch_error:
  "length batch < 100 \<Longrightarrow> NextTransaction h = Inr (tx, h1) \<Longrightarrow> affordable db tx \<Longrightarrow>
   isCommutative (ord (length h1)) vdb tx db = Inr (isComm, Some e, db1) \<Longrightarrow>
   fill_batch ord vdb batch db h ch =
     fill_batch ord vdb batch (if isComm then Earn db1 (Amount (Fee tx)) else db1) h1 ch"
  by (subst fill_batch.simps)
     (auto simp: affordable_def dest: NextTransaction_length split: sum.splits)

lemma fill_batch_requeue:
  "length batch < 100 \<Longrightarrow> NextTransaction h = Inr (tx, h1) \<Longrightarrow> affordable db tx \<Longrightarrow>
   isCommutative (ord (length h1)) vdb tx db = Inr (False, None, db1) \<Longrightarrow>
   fill_batch ord vdb batch db h ch = fill_batch ord vdb batch db1 h1 (ch @ [tx])"
  by (subst fill_batch.simps)
     (auto simp: affordable_def dest: NextTransaction_length split: sum.splits)

lemma fill_batch_admit:
  "length batch < 100 \<Longrightarrow> NextTransaction h = Inr (tx, h1) \<Longrightarrow> affordable db tx \<Longrightarrow>
   isCommutative (ord (length h1)) vdb tx db = Inr (True, None, db1) \<Longrightarrow>
   fill_batch ord vdb batch db h ch = fill_batch ord vdb (batch @ [tx]) db1 h1 ch"
  by (subst fill_batch.simps)
     (auto simp: affordable_def dest: NextTransaction_length split: sum.splits)

lemma fill_batch_rule:
  assumes run: "fill_batch ord vdb batch db h ch = Inr (batch', db', h', ch')"
    and init: "P batch db h ch"
    and drop: "\<And>batch db h ch tx h1.
        \<lbrakk>P batch db h ch; length batch < 100; NextTransaction h = Inr (tx, h1);
         \<not> affordable db tx\<rbrakk> \<Longrightarrow> P batch db h1 ch"
    and err: "\<And>batch db h ch tx h1 isComm e db1.
        \<lbrakk>P batch db h ch; length batch < 100; NextTransaction h = Inr (tx, h1);
         affordable db tx;
         isCommutative (ord (length h1)) vdb tx db = Inr (isComm, Some e, db1)\<rbrakk>
        \<Longrightarrow> P batch (if isComm then Earn db1 (Amount (Fee tx)) else db1) h1 ch"
    and requeue: "\<And>batch db h ch tx h1 db1.
        \<lbrakk>P batch db h ch; length batch < 100; NextTransaction h = Inr (tx, h1);
         affordable db tx;
         isCommutative (ord (length h1)) vdb tx db = Inr (False, None, db1)\<rbrakk>
        \<Longrightarrow> P batch db1 h1 (ch @ [tx])"
    and admit: "\<And>batch db h ch tx h1 db1.
        \<lbrakk>P batch db h ch; length batch < 100; NextTransaction h = Inr (tx, h1);
         affordable db tx;
         isCommutative (ord (length h1)) vdb tx db = Inr (True, None, db1)\<rbrakk>
        \<Longrightarrow> P (batch @ [tx]) db1 h1 ch"
  shows "P batch' db' h' ch'"
  using run init
proof (induction "length h" arbitrary: batch db h ch rule: less_induct)
  case less
  show ?case
  proof (cases "length batch < 100 \<and> length h > 0")
    case False
    then have "fill_batch ord vdb batch db h ch = Inr (batch, db, h, ch)"
      by (rule fill_batch_stop)
    with less.prems show ?thesis by simp
  next
    case True
    then obtain tx h1 where nt: "NextTransaction h = Inr (tx, h1)"
      using NextTransaction_nonempty [of h] by auto
    have lt: "length h1 < length h" using nt by (rule NextTransaction_length)
    from True have lb: "length batch < 100" by simp
    show ?thesis
    proof (cases "affordable db tx")
      case False
      have "fill_batch ord vdb batch db h1 ch = Inr (batch', db', h', ch')"
        using fill_batch_drop [OF lb nt False] less.prems(1) by simp
      moreover have "P batch db h1 ch"
        using drop [OF less.prems(2) lb nt False] .
      ultimately show ?thesis using less.hyps [OF lt] by blast
    next
      case aff: True
      show ?thesis
      proof (cases "isCommutative (ord (length h1)) vdb tx db")
        case (Inl p)
        then show ?thesis
          using fill_batch_panic [where ord = ord, OF lb nt aff Inl] less.prems(1) by simp
      next
        case (Inr r)
        obtain isComm err db1 where r: "r = (isComm, err, db1)"
          by (cases r) auto
        show ?thesis
        proof (cases err)
          case (Some e)
          have ic: "isCommutative (ord (length h1)) vdb tx db = Inr (isComm, Some e, db1)"
            using Inr r Some by simp
          have "fill_batch ord vdb batch (if isComm then Earn db1 (Amount (Fee tx)) else db1) h1 ch
                = Inr (batch', db', h', ch')"
            using fill_batch_error [where ord = ord, OF lb nt aff ic] less.prems(1) by simp
          moreover have "P batch (if isComm then Earn db1 (Amount (Fee tx)) else db1) h1 ch"
            using err [OF less.prems(2) lb nt aff ic] .
          ultimately show ?thesis using less.hyps [OF lt] by blast
        next
          case None
          show ?thesis
          proof (cases isComm)
            case False
            have ic: "isCommutative (ord (length h1)) vdb tx db = Inr (False, None, db1)"
              using Inr r None False by simp
            have "fill_batch ord vdb batch db1 h1 (ch @ [tx]) = Inr (batch', db', h', ch')"
              using fill_batch_requeue [where ord = ord, OF lb nt aff ic] less.prems(1) by simp
            moreover have "P batch db1 h1 (ch @ [tx])"
              using requeue [OF less.prems(2) lb nt aff ic] .
            ultimately show ?thesis using less.hyps [OF lt] by blast
          next
            case True
            have ic: "isCommutative (ord (length h1)) vdb tx db = Inr (True, None, db1)"
              using Inr r None True by simp
            have "fill_batch ord vdb (batch @ [tx]) db1 h1 ch = Inr (batch', db', h', ch')"
              using fill_batch_admit [where ord = ord, OF lb nt aff ic] less.prems(1) by simp
            moreover have "P (batch @ [tx]) db1 h1 ch"
              using admit [OF less.prems(2) lb nt aff ic] .
            ultimately show ?thesis using less.hyps [OF lt] by blast
          qed
        qed
      qed
    qed
  qed
qed

lemma fill_batch_length:
  assumes "fill_batch ord vdb batch db h ch = Inr (batch', db', h', ch')"
    and "length batch \<le> 100"
  shows "length batch' \<le> 100"
  using assms(1)
  by (rule fill_batch_rule [where P = "\<lambda>batch db h ch. length batch \<le> 100"])
     (use assms(2) in auto)


lemmas heap_eval = NextTransaction_def heap_Pop_def Pop_def down.simps Swap_def Less_def
  PushTransaction_def heap_Push_def Push_def up.simps
lemmas check_eval = GetBalance_def isCommutative_def balance_ignoring_error_def Earn_def Copy_def
lemmas commit_eval = CommitBatch_def commit_tx_def commit_fee_def SendBatch_def

lemmas pipeline_eval = NewFromSnapshot_def InitFromSnapshot_def decode_snapshot_def
  ProcessTransactions_step_def ProcessTransactions_default_def ReceiveTransaction_def CalcScore_def

section \<open>The score of a transaction\<close>




section \<open>The size of a batch\<close>

text \<open>
  C9. The batch that the filling loop returns holds at most 100 transactions. When it is
  empty, the pass ends with the validator as it was but for the heap and the channel:
  nothing is committed, the batch counter stays and nothing is sent. Otherwise the
  batch, of 1 to 100 transactions, is what \<open>CommitBatch\<close> and then \<open>SendBatch\<close> are
  called with.
\<close>

theorem batch_bound:
  assumes "fill_batch ord (vali_db vali) [] (Copy (vali_db vali)) (txHeap vali) (txCh vali)
             = Inr (batch, working, h', ch')"
  shows "length batch \<le> 100 \<and>
     (txHeap vali \<noteq> [] \<and> batch = [] \<longrightarrow>
        ProcessTransactions_default ord vali = Inr (vali\<lparr>txHeap := h', txCh := ch'\<rparr>)) \<and>
     (txHeap vali \<noteq> [] \<and> batch \<noteq> [] \<longrightarrow>
        1 \<le> length batch \<and>
        ProcessTransactions_default ord vali =
          (case CommitBatch batch (vali\<lparr>txHeap := h', txCh := ch'\<rparr>) of
             Inl p \<Rightarrow> Inl p
           | Inr vali2 \<Rightarrow> Inr (SendBatch batch vali2)))"
proof -
  have "length batch \<le> 100"
    using fill_batch_length [OF assms] by simp
  moreover have "1 \<le> length batch" if "batch \<noteq> []"
    using that by (cases batch) auto
  ultimately show ?thesis
    using assms by (auto simp: ProcessTransactions_default_def Let_def)
qed


lemma example_fill_batch:
  "fill_batch insertion_order example_ledger [] (Copy example_ledger) [example_transfer] []
     = Inr ([example_transfer\<lparr>index := - 1\<rparr>], example_working, [], [])"
  by (simp add: fill_batch.simps heap_eval check_eval example_ledger_def example_transfer_def
      example_working_def insertion_order_def Let_def fun_upd_twist)

theorem batch_bound_witness:
  "fill_batch insertion_order (vali_db example_validator) [] (Copy (vali_db example_validator))
       (txHeap example_validator) (txCh example_validator)
     = Inr ([example_transfer\<lparr>index := - 1\<rparr>], example_working, [], []) \<and>
   length [example_transfer\<lparr>index := - 1\<rparr>] \<le> 100 \<and>
   1 \<le> length [example_transfer\<lparr>index := - 1\<rparr>] \<and>
   ProcessTransactions_default insertion_order example_validator =
     (case CommitBatch [example_transfer\<lparr>index := - 1\<rparr>]
             (example_validator\<lparr>txHeap := [], txCh := []\<rparr>) of
        Inl p \<Rightarrow> Inl p
      | Inr vali2 \<Rightarrow> Inr (SendBatch [example_transfer\<lparr>index := - 1\<rparr>] vali2))"
proof -
  have run: "fill_batch insertion_order (vali_db example_validator) []
       (Copy (vali_db example_validator)) (txHeap example_validator) (txCh example_validator)
     = Inr ([example_transfer\<lparr>index := - 1\<rparr>], example_working, [], [])"
    using example_fill_batch by (simp add: example_validator_def)
  have ne: "txHeap example_validator \<noteq> []"
    by (simp add: example_validator_def)
  show ?thesis
    using batch_bound [OF run] run ne by simp
qed

section \<open>What the commutativity check changes\<close>

text \<open>
  \<open>isCommutative\<close> is handed two pointers: \<open>vali.db\<close>, the validator's own database,
  and \<open>db\<close>. To speak about what it writes through them, the databases allocated so
  far are kept in a store, addressed by position, and the function is written once more
  over the store: it reads the targets of relative transfers at \<open>v\<close> (\<open>vali.db\<close>), tests
  the changes against the database at \<open>d\<close> (\<open>db\<close>) and, in its last loop, assigns to
  \<open>db.Accounts[account]\<close>. \<open>Copy\<close> allocates a new database.
\<close>

type_synonym store = "Accounts list"

definition Copy_at :: "store \<Rightarrow> nat \<Rightarrow> nat \<times> store" where
  "Copy_at s a = (length s, s @ [Copy (s ! a)])"

fun commit_changes_at :: "changes \<Rightarrow> nat \<Rightarrow> store \<Rightarrow> store" where
  "commit_changes_at [] d s = s"
| "commit_changes_at ((account, change) # rest) d s =
     commit_changes_at rest d
       (s[d := (s ! d)(account \<mapsto> balance_ignoring_error (s ! d) account + change)])"

definition isCommutative_at ::
  "(changes \<Rightarrow> changes) \<Rightarrow> nat \<Rightarrow> Transaction \<Rightarrow> nat \<Rightarrow> store \<Rightarrow> panic + (bool \<times> error option \<times> store)" where
  "isCommutative_at ord v tx d s =
     (case fold_instrs (s ! v) (Instructions tx) ([(Payer (Fee tx), - Amount (Fee tx))], 0) of
        Inl p \<Rightarrow> Inl p
      | Inr (changes, sumv) \<Rightarrow>
          if sumv \<noteq> 0 then Inr (True, Some ErrInstructionSumNonZero, s)
          else (case test_changes (s ! d) (ord changes) of
                  Inl (b, err) \<Rightarrow> Inr (b, err, s)
                | Inr kept \<Rightarrow> Inr (True, None, commit_changes_at kept d s)))"

lemma commit_changes_at_length [simp]: "length (commit_changes_at cs d s) = length s"
  by (induction cs d s rule: commit_changes_at.induct) simp_all

lemma commit_changes_at_other:
  "a \<noteq> d \<Longrightarrow> commit_changes_at cs d s ! a = s ! a"
  by (induction cs d s rule: commit_changes_at.induct) simp_all

lemma commit_changes_at_pure:
  "d < length s \<Longrightarrow> commit_changes_at cs d s = s[d := commit_changes cs (s ! d)]"
  by (induction cs d s rule: commit_changes_at.induct) simp_all

text \<open>
  The function over the store does to the database at \<open>d\<close> what \<open>isCommutative\<close>, as
  used by the loop that fills a batch, returns for it.
\<close>

lemma isCommutative_at_pure:
  "d < length s \<Longrightarrow>
   isCommutative_at ord v tx d s =
     (case isCommutative ord (s ! v) tx (s ! d) of
        Inl p \<Rightarrow> Inl p
      | Inr (b, err, db') \<Rightarrow> Inr (b, err, s[d := db']))"
  by (auto simp: isCommutative_at_def isCommutative_def commit_changes_at_pure
           split: sum.splits prod.splits)

text \<open>The database that \<open>Copy\<close> returns is a new one, with the contents of the copied.\<close>

lemma Copy_at_fresh:
  "v < length s \<Longrightarrow> Copy_at s v = (d, s1) \<Longrightarrow>
   v \<noteq> d \<and> d < length s1 \<and> s1 ! d = s ! v \<and> (\<forall>a < length s. s1 ! a = s ! a)"
  by (auto simp: Copy_at_def Copy_def nth_append)

text \<open>
  C10. For every transaction and every working snapshot \<open>db\<close> that is not the
  validator's own database, whatever the two hold: a call of \<open>isCommutative\<close> that
  returns leaves the validator's database, and every database but \<open>db\<close>, as it was; and
  unless it returns \<open>true\<close> with no error, it leaves \<open>db\<close> as it was too. A call that
  panics does so before the first assignment and returns nothing.
\<close>

theorem isCommutative_frame:
  assumes "v \<noteq> d"
    and "isCommutative_at ord v tx d s = Inr (b, err, s')"
  shows "s' ! v = s ! v \<and> (\<not> (b \<and> err = None) \<longrightarrow> s' = s) \<and>
         length s' = length s \<and> (\<forall>a. a \<noteq> d \<longrightarrow> s' ! a = s ! a)"
  using assms
  by (auto simp: isCommutative_at_def commit_changes_at_other
           split: sum.splits prod.splits if_splits)

theorem isCommutative_frame_witness:
  "(0::nat) \<noteq> 1 \<and>
   isCommutative_at (insertion_order 0) 0 example_overdraft 1 [example_ledger, example_working]
     = Inr (False, None, [example_ledger, example_working]) \<and>
   [example_ledger, example_working] ! 0 = [example_ledger, example_working] ! 0 \<and>
   (case isCommutative_at (insertion_order 0) 0 example_transfer 1 [example_ledger, example_working] of
      Inl p \<Rightarrow> False
    | Inr (b, err, s') \<Rightarrow>
        b \<and> err = None \<and> s' ! 0 = example_ledger \<and> s' ! 1 \<noteq> example_working \<and>
        (s' ! 1) ''alice'' = Some 60)"
proof -
  have i: "isCommutative_at (insertion_order 0) 0 example_overdraft 1 [example_ledger, example_working]
     = Inr (False, None, [example_ledger, example_working])"
    by (simp add: isCommutative_at_def GetBalance_def example_overdraft_def example_ledger_def
        example_working_def insertion_order_def)
  obtain s' where j: "isCommutative_at (insertion_order 0) 0 example_transfer 1
        [example_ledger, example_working] = Inr (True, None, s')"
    and a: "(s' ! 1) ''alice'' = Some 60"
    by (simp add: isCommutative_at_def GetBalance_def balance_ignoring_error_def
        example_transfer_def example_ledger_def example_working_def insertion_order_def)
  have ne: "s' ! 1 \<noteq> example_working"
  proof
    assume "s' ! 1 = example_working"
    then have "(s' ! 1) ''alice'' = Some 80" by (simp add: example_working_def)
    with a show False by simp
  qed
  have n: "(0::nat) \<noteq> 1" by simp
  show ?thesis
    using isCommutative_frame [OF n i] isCommutative_frame [OF n j] i j a ne by simp
qed

section \<open>Transactions that fail the speculative application\<close>















section \<open>The delta map of a relative transfer\<close>

text \<open>
  C4. The delta map is to hold, for a \<open>minus\<close> relative transfer, the target's balance
  subtracted from the named account's entry. On the ledger \<open>relative_ledger\<close>, where
  \<open>carol\<close> holds 7, the instruction "\<open>bob\<close> minus \<open>carol\<close>" of a transaction paid by
  \<open>alice\<close> finds no entry for \<open>bob\<close> and enters \<open>+7\<close>; the same instruction in a
  transaction paid by \<open>bob\<close> finds the fee entry \<open>-1\<close> and makes it \<open>-8\<close>.
\<close>

theorem relative_minus_entered_with_plus_sign:
  "fold_instrs relative_ledger [\<lparr>Account = ''bob'', Change = minus_carol\<rparr>] ([(''alice'', - 1)], 0)
     = Inr ([(''alice'', - 1), (''bob'', 7)], 0) \<and>
   fold_instrs relative_ledger [\<lparr>Account = ''bob'', Change = minus_carol\<rparr>] ([(''bob'', - 1)], 0)
     = Inr ([(''bob'', - 8)], 0)"
  by (simp add: relative_ledger_def minus_carol_def GetBalance_def)


section \<open>Balances below zero\<close>

text \<open>
  C1. Every balance of the ledger is to stay at or above zero after each commit. The
  validator is started from the snapshot \<open>relative_snapshot\<close>, receives the transaction
  "\<open>bob\<close> minus \<open>carol\<close>" paid by \<open>alice\<close> with fee 1, pushes it on the heap and runs
  one pass. The check enters \<open>+7\<close> for \<open>bob\<close> and admits the transaction; the commit
  subtracts 7 from \<open>bob\<close>'s 5 and leaves \<open>-2\<close>.
\<close>

theorem relative_minus_drives_balance_negative:
  "(case NewFromSnapshot relative_snapshot of
      Inl e \<Rightarrow> False
    | Inr v0 \<Rightarrow>
       (case ProcessTransactions_step insertion_order
               (ReceiveTransaction \<lparr>Payer = ''alice'', Amount = 1\<rparr>
                  [\<lparr>Account = ''bob'', Change = minus_carol\<rparr>] v0) of
          Inl p \<Rightarrow> False
        | Inr v1 \<Rightarrow>
           (case ProcessTransactions_step insertion_order v1 of
              Inl p \<Rightarrow> False
            | Inr v2 \<Rightarrow>
                vali_db v0 ''bob'' = Some 5 \<and> vali_db v0 ''carol'' = Some 7 \<and>
                length (sent v2) = 1 \<and> batchIdx v2 = 1 \<and>
                vali_db v2 ''bob'' = Some (- 2))))"
  by (simp add: pipeline_eval relative_snapshot_def minus_carol_def fill_batch.simps heap_eval
      check_eval commit_eval insertion_order_def Let_def ceiling_eq_iff)


section \<open>The order of a committed batch\<close>

text \<open>
  C2. Applying a committed batch in another order is to give the same ledger. The
  validator is started from \<open>order_snapshot\<close> and receives \<open>credit_carol\<close> and
  \<open>bob_minus_carol\<close>; one pass admits both, in this order, and commits them. The commit
  reads \<open>carol\<close>'s balance from the ledger it is writing to: after \<open>credit_carol\<close> it is
  10, and \<open>bob\<close> ends at \<open>-5\<close>. Committed in the other order, \<open>bob\<close> ends at \<open>0\<close>.
\<close>

theorem commit_order_matters:
  "(case NewFromSnapshot order_snapshot of
      Inl e \<Rightarrow> False
    | Inr v0 \<Rightarrow>
       (case ProcessTransactions_step insertion_order
               (ReceiveTransaction (Fee bob_minus_carol) (Instructions bob_minus_carol)
                 (ReceiveTransaction (Fee credit_carol) (Instructions credit_carol) v0)) of
          Inl p \<Rightarrow> False
        | Inr v1 \<Rightarrow>
           (case ProcessTransactions_step insertion_order v1 of
              Inl p \<Rightarrow> False
            | Inr v2 \<Rightarrow>
               (case ProcessTransactions_step insertion_order v2 of
                  Inl p \<Rightarrow> False
                | Inr v3 \<Rightarrow>
                    sent v3 = [[credit_carol, bob_minus_carol]] \<and>
                    commit_txs [credit_carol, bob_minus_carol] (vali_db v0) = Inr (vali_db v3) \<and>
                    vali_db v3 ''bob'' = Some (- 5) \<and>
                    (case commit_txs [bob_minus_carol, credit_carol] (vali_db v0) of
                       Inl p \<Rightarrow> False
                     | Inr db' \<Rightarrow> db' ''bob'' = Some 0)))))"
  by (simp add: pipeline_eval order_snapshot_def credit_carol_def bob_minus_carol_def minus_carol_def
      fill_batch.simps heap_eval
      check_eval commit_eval insertion_order_def Let_def ceiling_eq_iff)



section \<open>Forfeited fees\<close>

text \<open>
  C6. The validator's balance is to grow by the fees of the admitted transactions and
  by the forfeited fees of the transactions whose instructions do not sum to zero. The
  validator is started from \<open>fee_snapshot\<close> and receives \<open>unbalanced_credit\<close> (fee 10) and
  the transfer of the specification's example (fee 10). The pass takes
  \<open>unbalanced_credit\<close> first and credits its fee to the validator in the working
  snapshot only, without debiting \<open>alice\<close>; it then admits the transfer. After the commit
  the validator holds 10, not 20, and \<open>alice\<close> holds 80.
\<close>

theorem forfeited_fee_is_not_committed:
  "(case NewFromSnapshot fee_snapshot of
      Inl e \<Rightarrow> False
    | Inr v0 \<Rightarrow>
       (case ProcessTransactions_step insertion_order
               (ReceiveTransaction (Fee example_transfer) (Instructions example_transfer)
                 (ReceiveTransaction (Fee unbalanced_credit) (Instructions unbalanced_credit) v0)) of
          Inl p \<Rightarrow> False
        | Inr v1 \<Rightarrow>
           (case ProcessTransactions_step insertion_order v1 of
              Inl p \<Rightarrow> False
            | Inr v2 \<Rightarrow>
               (case fill_batch insertion_order (vali_db v2) [] (Copy (vali_db v2)) (txHeap v2) (txCh v2) of
                  Inl p \<Rightarrow> False
                | Inr (batch, working, h', ch') \<Rightarrow>
                   (case ProcessTransactions_step insertion_order v2 of
                      Inl p \<Rightarrow> False
                    | Inr v3 \<Rightarrow>
                        map prio (txHeap v2) = [48, 45] \<and>
                        batch = [example_transfer\<lparr>index := - 1\<rparr>] \<and> h' = [] \<and> ch' = [] \<and>
                        working ''validator'' = Some 10 \<and> working ''alice'' = Some 80 \<and>
                        sent v3 = [batch] \<and>
                        vali_db v0 ''validator'' = Some 0 \<and>
                        vali_db v3 ''validator'' = Some 10 \<and>
                        vali_db v3 ''alice'' = Some 80)))))"
  by (simp add: pipeline_eval fee_snapshot_def unbalanced_credit_def example_transfer_def
      fill_batch.simps heap_eval
      check_eval commit_eval insertion_order_def Let_def ceiling_eq_iff)

section \<open>The pending queue\<close>

text \<open>
  The heap orders transactions by \<open>prio\<close>; the \<open>index\<close> field is bookkeeping that
  \<open>Swap\<close>, \<open>Push\<close> and \<open>Pop\<close> overwrite. \<open>unindexed\<close> is a transaction without it.
  \<open>heap_ordered ps n\<close> says that among the first \<open>n\<close> priorities no child exceeds its
  parent; \<open>down_ready\<close> and \<open>up_ready\<close> are what holds of the slice while \<open>down\<close> and
  \<open>up\<close> still have to move the element at their index. The states of the pending queue
  are the heaps reached from the empty heap by \<open>PushTransaction\<close> and
  \<open>NextTransaction\<close>.
\<close>

definition unindexed :: "Transaction \<Rightarrow> Transaction" where
  "unindexed t = t\<lparr>index := 0\<rparr>"





lemma map_update_same: "(map f xs)[i := f (xs ! i)] = map f xs"
  by (cases "i < length xs") (simp_all add: list_update_same_conv list_update_beyond)

lemma map_Swap:
  assumes "\<And>t k. f (t\<lparr>index := k\<rparr>) = f t"
  shows "map f (Swap h i j) = (map f h)[i := f (h ! j), j := f (h ! i)]"
proof -
  define h1 where "h1 = h[i := h ! j, j := h ! i]"
  define h2 where "h2 = h1[i := (h1 ! i)\<lparr>index := int i\<rparr>]"
  have "map f h2 = map f h1"
    by (simp add: h2_def map_update assms map_update_same)
  moreover have "map f (h2[j := (h2 ! j)\<lparr>index := int j\<rparr>]) = map f h2"
    by (simp add: map_update assms map_update_same)
  moreover have "Swap h i j = h2[j := (h2 ! j)\<lparr>index := int j\<rparr>]"
    by (simp add: Swap_def h1_def h2_def Let_def)
  ultimately show ?thesis
    by (simp add: h1_def map_update)
qed


lemma unindexed_Swap:
  "map unindexed (Swap h i j) = (map unindexed h)[i := unindexed (h ! j), j := unindexed (h ! i)]"
  by (rule map_Swap) (simp add: unindexed_def)

lemma mset_unindexed_Swap:
  assumes "i < length h" and "j < length h"
  shows "mset (map unindexed (Swap h i j)) = mset (map unindexed h)"
proof -
  have eq: "map unindexed (Swap h i j)
        = (map unindexed h)[i := map unindexed h ! j, j := map unindexed h ! i]"
    using assms by (simp add: unindexed_Swap)
  show ?thesis
    unfolding eq by (rule mset_swap) (use assms in simp_all)
qed













lemma up_mset:
  "j < length h \<Longrightarrow> mset (map unindexed (up h j)) = mset (map unindexed h)"
proof (induction h j rule: up.induct)
  case (1 h j)
  define i where "i = (j - 1) div 2"
  have il: "i < length h" using "1.prems"(1) by (simp add: i_def)
  show ?case
  proof (cases "i = j \<or> \<not> Less h j i")
    case True
    then show ?thesis
      by (subst up.simps) (auto simp: Let_def i_def)
  next
    case False
    have eq: "up h j = up (Swap h i j) i"
      using False by (subst up.simps) (auto simp: Let_def i_def)
    have "mset (map unindexed (up (Swap h i j) i)) = mset (map unindexed (Swap h i j))"
      using "1.IH" [of i] False il by (simp add: i_def)
    moreover have "mset (map unindexed (Swap h i j)) = mset (map unindexed h)"
      using il "1.prems" by (intro mset_unindexed_Swap)
    ultimately show ?thesis using eq by simp
  qed
qed







lemma mset_Push:
  "mset (map unindexed (PushTransaction h tx)) = add_mset (unindexed tx) (mset (map unindexed h))"
proof -
  define g where "g = h @ [tx\<lparr>index := int (length h)\<rparr>]"
  have "mset (map unindexed (up g (length h))) = mset (map unindexed g)"
    by (rule up_mset) (simp add: g_def)
  then show ?thesis
    by (simp add: PushTransaction_def heap_Push_def Push_def Let_def g_def unindexed_def)
qed






end
